theory Spec2Isabelle
  imports Complex_Main "HOL-Library.AList"
begin


section \<open>Segment parser (\<open>parseText\<close>)\<close>

text \<open>
  A segment is the object \<open>{ text, effect }\<close> that \<open>parseText\<close> pushes; \<open>effect\<close> is
  \<open>null\<close> (here \<open>None\<close>) for plain text. JavaScript strings are modelled as \<open>string\<close>
  (a list of characters).
\<close>

record segment =
  seg_text :: string
  seg_effect :: "string option"

text \<open>The class \<open>\w\<close> of a JavaScript regular expression without flags \<open>u\<close>/\<open>i\<close>:
  \<open>[A-Za-z0-9_]\<close>.\<close>

definition word_char :: "char \<Rightarrow> bool" where
  "word_char c \<longleftrightarrow>
     c \<in> set ''abcdefghijklmnopqrstuvwxyzABCDEFGHIJKLMNOPQRSTUVWXYZ0123456789_''"

definition not_close :: "char \<Rightarrow> bool" where
  "not_close c \<longleftrightarrow> c \<noteq> CHR ''}''"

text \<open>
  \<open>greedy_plus C k acc s\<close> is the quantified class \<open>C+\<close> followed by the rest of the
  pattern \<open>k\<close>, as a backtracking matcher runs it: it first consumes one more character
  of the class, and only when the rest of the pattern fails after that does it hand what
  it has consumed so far (\<open>acc\<close>, at least one character) to \<open>k\<close>.
\<close>

fun greedy_plus ::
  "(char \<Rightarrow> bool) \<Rightarrow> (string \<Rightarrow> string \<Rightarrow> 'a option) \<Rightarrow> string \<Rightarrow> string \<Rightarrow> 'a option"
where
  "greedy_plus C k acc [] = (if acc = [] then None else k acc [])"
| "greedy_plus C k acc (c # cs) =
     (if C c then
        (case greedy_plus C k (acc @ [c]) cs of
           Some r \<Rightarrow> Some r
         | None \<Rightarrow> if acc = [] then None else k acc (c # cs))
      else if acc = [] then None else k acc (c # cs))"

text \<open>The closing brace of the pattern; the result is the two groups and the input left
  after the match.\<close>

definition close_brace :: "string \<Rightarrow> string \<Rightarrow> string \<Rightarrow> (string \<times> string \<times> string) option" where
  "close_brace tag content s =
     (case s of c # rest \<Rightarrow> if c = CHR ''}'' then Some (tag, content, rest) else None
      | [] \<Rightarrow> None)"

definition after_tag :: "string \<Rightarrow> string \<Rightarrow> (string \<times> string \<times> string) option" where
  "after_tag tag s =
     (case s of c # rest \<Rightarrow>
          if c = CHR '':'' then greedy_plus not_close (close_brace tag) [] rest else None
      | [] \<Rightarrow> None)"

text \<open>The pattern \<open>\{(\w+):([^}]+)\}\<close> tried at the start of \<open>s\<close>.\<close>

definition match_here :: "string \<Rightarrow> (string \<times> string \<times> string) option" where
  "match_here s =
     (case s of c # rest \<Rightarrow>
          if c = CHR ''{'' then greedy_plus word_char after_tag [] rest else None
      | [] \<Rightarrow> None)"

text \<open>
  \<open>exec_from s i\<close> is \<open>regex.exec\<close> scanning the suffix \<open>s\<close> of the text that starts at
  index \<open>i\<close>: the leftmost position where the pattern matches. The result is
  \<open>(match.index, match[1], match[2], regex.lastIndex)\<close>.
\<close>

fun exec_from :: "string \<Rightarrow> nat \<Rightarrow> (nat \<times> string \<times> string \<times> nat) option" where
  "exec_from [] i = None"
| "exec_from (c # cs) i =
     (case match_here (c # cs) of
        Some (tag, content, rest) \<Rightarrow> Some (i, tag, content, i + (length (c # cs) - length rest))
      | None \<Rightarrow> exec_from cs (Suc i))"

definition regex_exec :: "string \<Rightarrow> nat \<Rightarrow> (nat \<times> string \<times> string \<times> nat) option" where
  "regex_exec txt lastIndex = exec_from (drop lastIndex txt) lastIndex"

definition substring :: "string \<Rightarrow> nat \<Rightarrow> nat \<Rightarrow> string" where
  "substring txt a b = take (b - a) (drop a txt)"

lemma greedy_plus_acc:
  assumes "greedy_plus C k acc s = Some r"
  shows "\<exists>m rest. s = m @ rest \<and> acc @ m \<noteq> [] \<and> k (acc @ m) rest = Some r \<and> (\<forall>c \<in> set m. C c)"
  using assms
proof (induction s arbitrary: acc)
  case Nil
  then show ?case by (auto split: if_splits)
next
  case (Cons c cs)
  show ?case
  proof (cases "C c \<and> greedy_plus C k (acc @ [c]) cs \<noteq> None")
    case True
    then have "greedy_plus C k (acc @ [c]) cs = Some r"
      using Cons.prems by auto
    from Cons.IH [OF this] obtain m rest where
      "cs = m @ rest" "(acc @ [c]) @ m \<noteq> []" "k ((acc @ [c]) @ m) rest = Some r" "\<forall>x \<in> set m. C x"
      by blast
    with True show ?thesis
      by (intro exI [of _ "c # m"] exI [of _ rest]) simp
  next
    case False
    then have "acc \<noteq> [] \<and> k acc (c # cs) = Some r"
      using Cons.prems by (auto split: if_splits option.splits)
    then show ?thesis
      by (intro exI [of _ "[]"] exI [of _ "c # cs"]) simp
  qed
qed

lemma match_here_shape:
  assumes "match_here s = Some (tag, content, rest)"
  shows "s = ''{'' @ tag @ '':'' @ content @ ''}'' @ rest \<and> tag \<noteq> [] \<and> content \<noteq> []
    \<and> (\<forall>c \<in> set tag. word_char c) \<and> CHR ''}'' \<notin> set content"
proof -
  from assms obtain s1 where s: "s = CHR ''{'' # s1"
    and g1: "greedy_plus word_char after_tag [] s1 = Some (tag, content, rest)"
    by (auto simp: match_here_def split: list.splits if_splits)
  from greedy_plus_acc [OF g1] obtain t r1 where
    t: "s1 = t @ r1" "t \<noteq> []" "after_tag t r1 = Some (tag, content, rest)" "\<forall>c \<in> set t. word_char c"
    by auto
  from t(3) obtain s2 where r1: "r1 = CHR '':'' # s2"
    and g2: "greedy_plus not_close (close_brace t) [] s2 = Some (tag, content, rest)"
    by (auto simp: after_tag_def split: list.splits if_splits)
  from greedy_plus_acc [OF g2] obtain u r2 where
    u: "s2 = u @ r2" "u \<noteq> []" "close_brace t u r2 = Some (tag, content, rest)"
       "\<forall>c \<in> set u. not_close c"
    by auto
  from u(3) have "r2 = CHR ''}'' # rest" "tag = t" "content = u"
    by (auto simp: close_brace_def split: list.splits if_splits)
  with s t r1 u show ?thesis
    by (auto simp: not_close_def)
qed

lemma match_here_length:
  "match_here s = Some (tag, content, rest) \<Longrightarrow> length rest < length s"
  by (drule match_here_shape) auto

lemma exec_from_bounds:
  "exec_from s i = Some (idx, tag, content, e) \<Longrightarrow> i \<le> idx \<and> idx < e \<and> e \<le> i + length s"
proof (induction s i rule: exec_from.induct)
  case (1 i)
  then show ?case by simp
next
  case (2 c cs i)
  show ?case
  proof (cases "match_here (c # cs)")
    case None
    with 2 show ?thesis by auto
  next
    case (Some m)
    obtain t u rest where m: "m = (t, u, rest)" by (cases m) auto
    from match_here_length [of "c # cs" t u rest] Some m
    have "length rest < length (c # cs)" by simp
    with 2 Some m show ?thesis by auto
  qed
qed

lemma regex_exec_bounds:
  "regex_exec txt i = Some (idx, tag, content, e) \<Longrightarrow> i \<le> idx \<and> idx < e \<and> e \<le> length txt"
proof -
  assume a: "regex_exec txt i = Some (idx, tag, content, e)"
  then have b: "i \<le> idx \<and> idx < e \<and> e \<le> i + length (drop i txt)"
    unfolding regex_exec_def by (rule exec_from_bounds)
  have "i < length txt"
  proof (rule ccontr)
    assume "\<not> i < length txt"
    then have "drop i txt = []" by simp
    with a show False by (simp add: regex_exec_def)
  qed
  with b show ?thesis by simp
qed

text \<open>
  The \<open>while ((match = regex.exec(text)) !== null)\<close> loop of \<open>parseText\<close>, with the local
  \<open>lastIndex\<close> and the \<open>segments\<close> array as loop state. It returns both.
\<close>

function parse_loop :: "string \<Rightarrow> nat \<Rightarrow> segment list \<Rightarrow> nat \<times> segment list" where
  "parse_loop txt lastIndex segments =
     (case regex_exec txt lastIndex of
        None \<Rightarrow> (lastIndex, segments)
      | Some (idx, tag, content, e) \<Rightarrow>
          parse_loop txt e
            ((if idx > lastIndex
              then segments @ [\<lparr>seg_text = substring txt lastIndex idx, seg_effect = None\<rparr>]
              else segments)
             @ [\<lparr>seg_text = content, seg_effect = Some tag\<rparr>]))"
  by pat_completeness auto
termination
  by (relation "measure (\<lambda>(txt, lastIndex, segments). length txt - lastIndex)")
     (auto dest!: regex_exec_bounds)

definition parseText :: "string \<Rightarrow> segment list" where
  "parseText txt =
     (let (lastIndex, segments) = parse_loop txt 0 [];
          segments = (if lastIndex < length txt
                      then segments @ [\<lparr>seg_text = drop lastIndex txt, seg_effect = None\<rparr>]
                      else segments)
      in if segments = [] then [\<lparr>seg_text = txt, seg_effect = None\<rparr>] else segments)"


declare parse_loop.simps [simp del]

subsection \<open>The marker grammar as the specification words it\<close>

text \<open>
  A marker is \<open>{tag:content}\<close>: \<open>tag\<close> is one or more word characters and \<open>content\<close> is one
  or more characters other than \<open>}\<close>. \<open>has_marker\<close> says that the text contains one
  somewhere.
\<close>

definition has_marker :: "string \<Rightarrow> bool" where
  "has_marker txt \<longleftrightarrow>
     (\<exists>pre tag content post.
        txt = pre @ ''{'' @ tag @ '':'' @ content @ ''}'' @ post
        \<and> tag \<noteq> [] \<and> list_all word_char tag
        \<and> content \<noteq> [] \<and> CHR ''}'' \<notin> set content)"

text \<open>
  \<open>marker_at s\<close> reads a marker standing at the very start of \<open>s\<close> without any
  backtracking: the longest run of word characters is the tag, the longest run of
  characters other than \<open>}\<close> is the content.
\<close>

definition marker_at :: "string \<Rightarrow> (string \<times> string \<times> string) option" where
  "marker_at s =
     (case s of
        [] \<Rightarrow> None
      | c # r \<Rightarrow>
          if c \<noteq> CHR ''{'' then None
          else let tag = takeWhile word_char r; r1 = dropWhile word_char r in
            if tag = [] then None
            else (case r1 of
                [] \<Rightarrow> None
              | d # r2 \<Rightarrow>
                  if d \<noteq> CHR '':'' then None
                  else let content = takeWhile not_close r2; r3 = dropWhile not_close r2 in
                    if content = [] then None
                    else (case r3 of
                        [] \<Rightarrow> None
                      | e # rest \<Rightarrow> if e = CHR ''}'' then Some (tag, content, rest) else None)))"

lemma greedy_plus_longest:
  assumes "\<And>a c cs. C c \<Longrightarrow> k a (c # cs) = None"
  shows "greedy_plus C k acc s =
    (if acc @ takeWhile C s = [] then None else k (acc @ takeWhile C s) (dropWhile C s))"
proof (induction s arbitrary: acc)
  case Nil
  show ?case by simp
next
  case (Cons c cs)
  show ?case
  proof (cases "C c")
    case True
    have "greedy_plus C k (acc @ [c]) cs = k (acc @ c # takeWhile C cs) (dropWhile C cs)"
      using Cons.IH [of "acc @ [c]"] by simp
    moreover have "k acc (c # cs) = None"
      using True by (rule assms)
    ultimately show ?thesis
      using True by (simp split: option.splits)
  next
    case False
    then show ?thesis by simp
  qed
qed

lemma word_char_not_colon: "word_char c \<Longrightarrow> c \<noteq> CHR '':''"
  by (auto simp: word_char_def)

lemma after_tag_longest:
  "after_tag tag s =
     (case s of
        [] \<Rightarrow> None
      | d # r2 \<Rightarrow>
          if d \<noteq> CHR '':'' then None
          else let content = takeWhile not_close r2; r3 = dropWhile not_close r2 in
            if content = [] then None
            else (case r3 of
                [] \<Rightarrow> None
              | e # rest \<Rightarrow> if e = CHR ''}'' then Some (tag, content, rest) else None))"
proof -
  have k: "\<And>a c cs. not_close c \<Longrightarrow> close_brace tag a (c # cs) = None"
    by (simp add: close_brace_def not_close_def)
  show ?thesis
    by (simp add: after_tag_def greedy_plus_longest [of not_close "close_brace tag", OF k]
        close_brace_def Let_def split: list.splits)
qed

lemma match_here_marker_at: "match_here s = marker_at s"
proof -
  have k: "\<And>a c cs. word_char c \<Longrightarrow> after_tag a (c # cs) = None"
    by (simp add: after_tag_def word_char_not_colon)
  show ?thesis
  proof (cases s)
    case Nil
    then show ?thesis by (simp add: match_here_def marker_at_def)
  next
    case (Cons c r)
    show ?thesis
      unfolding Cons match_here_def marker_at_def
      by (simp add: greedy_plus_longest [of word_char after_tag, OF k] Let_def)
        (simp add: after_tag_longest Let_def)
  qed
qed

text \<open>
  The message "verbatim minus marker syntax": reading left to right, a marker standing
  at the current position is replaced by its content and reading goes on behind its
  closing brace; any other character is kept.
\<close>

function strip_markers :: "string \<Rightarrow> string" where
  "strip_markers s =
     (case marker_at s of
        Some (tag, content, rest) \<Rightarrow> content @ strip_markers rest
      | None \<Rightarrow> (case s of [] \<Rightarrow> [] | c # cs \<Rightarrow> c # strip_markers cs))"
  by pat_completeness auto
termination
  by (relation "measure length")
     (auto dest!: match_here_length simp: match_here_marker_at [symmetric])

declare strip_markers.simps [simp del]

section \<open>The text box: configuration, display surface and run-time state\<close>

subsection \<open>Options\<close>

text \<open>
  \<open>this.options\<close> at the types the constructor documents. \<open>speed\<close> is in characters
  per second, \<open>delayAfter\<close> in milliseconds; \<open>displayType\<close> is the option \<open>type\<close>
  (\<open>'disappear'\<close> or \<open>'persist'\<close>).
\<close>

record config =
  fontFamily :: string
  fontSize :: nat
  color :: string
  speed :: real
  displayType :: string
  delayAfter :: real
  backgroundColor :: string
  padding :: string
  skippable :: bool
  fixedSize :: bool
  width :: string
  height :: string
  waitForInput :: bool

text \<open>One own property of the object passed to \<open>updateOptions\<close>.\<close>

datatype opt =
    FontFamily string
  | FontSize nat
  | Color string
  | Speed real
  | DisplayType string
  | DelayAfter real
  | BackgroundColor string
  | Padding string
  | Skippable bool
  | FixedSize bool
  | Width string
  | Height string
  | WaitForInput bool

fun assign_opt :: "config \<Rightarrow> opt \<Rightarrow> config" where
  "assign_opt c (FontFamily v) = c\<lparr>fontFamily := v\<rparr>"
| "assign_opt c (FontSize v) = c\<lparr>fontSize := v\<rparr>"
| "assign_opt c (Color v) = c\<lparr>color := v\<rparr>"
| "assign_opt c (Speed v) = c\<lparr>speed := v\<rparr>"
| "assign_opt c (DisplayType v) = c\<lparr>displayType := v\<rparr>"
| "assign_opt c (DelayAfter v) = c\<lparr>delayAfter := v\<rparr>"
| "assign_opt c (BackgroundColor v) = c\<lparr>backgroundColor := v\<rparr>"
| "assign_opt c (Padding v) = c\<lparr>padding := v\<rparr>"
| "assign_opt c (Skippable v) = c\<lparr>skippable := v\<rparr>"
| "assign_opt c (FixedSize v) = c\<lparr>fixedSize := v\<rparr>"
| "assign_opt c (Width v) = c\<lparr>width := v\<rparr>"
| "assign_opt c (Height v) = c\<lparr>height := v\<rparr>"
| "assign_opt c (WaitForInput v) = c\<lparr>waitForInput := v\<rparr>"

text \<open>The spread \<open>{ ...this.options, ...newOptions }\<close>: the properties of \<open>newOptions\<close>
  are written over the current ones, in their order.\<close>

definition spread :: "config \<Rightarrow> opt list \<Rightarrow> config" where
  "spread c newOptions = foldl assign_opt c newOptions"

subsection \<open>Display surface\<close>

text \<open>
  The children of \<open>textElement\<close> other than the continue indicator. The indicator is
  appended by the constructor, every other node is inserted before it and it is never
  removed, so it is always the last child; \<open>indicatorShown\<close> is its
  \<open>style.display !== 'none'\<close>. A \<open>span\<close> carries its \<open>data-segment\<close> attribute (absent
  on the spans that \<open>skip\<close> creates), its class name and its text content.
\<close>

datatype node =
    Span (data_segment: "nat option") (className: "string option") (textContent: string)
  | Br

text \<open>What the text box does to its collaborators, in order: the changes of the content
  nodes and the calls of \<open>setTimeout\<close> (with the delay handed over).\<close>

datatype instr =
    CreateSpan "nat option" "string option"
  | AppendChar nat char
  | SetText string
  | RemoveChild
  | InsertBr
  | SetTimeout real

subsection \<open>Timers, promises and suspended calls\<close>

text \<open>
  A live timer holds its callback: \<open>TypeChar resolve msPerChar\<close> is the closure
  \<open>typeChar\<close> of one call of \<open>typeText\<close> (it captures that call's \<open>resolve\<close> and
  \<open>msPerChar\<close>), \<open>Resolve p\<close> is the \<open>resolve\<close> that \<open>wait\<close> hands to \<open>setTimeout\<close>.
  Promises are numbered; a \<open>resolve\<close> function is the number of its promise.
\<close>

datatype callback = TypeChar nat real | Resolve nat

text \<open>The two \<open>await\<close>s of \<open>processQueue\<close>: a suspended call resumes behind
  \<open>await this.typeText(text)\<close> or behind the wait for input or delay.\<close>

datatype cont = AfterTypeText | AfterGate

record textbox =
  options :: config
  queue :: "string list"
  isTyping :: bool
  currentText :: string
  currentIndex :: nat
  timeoutId :: "nat option"
  hasSkippedCurrentText :: bool
  currentFullText :: "string option"
  segments :: "segment list"
  currentSegmentIndex :: nat
  currentSegmentCharIndex :: nat
  continueResolve :: "nat option"
  children :: "node list"
  indicatorShown :: bool
  style :: "(string \<times> string) list"
  attached :: bool
  skipListeners :: bool
  continueListeners :: bool
  timers :: "(nat \<times> real \<times> callback) list"
  nextTimer :: nat
  nextPromise :: nat
  resolved :: "nat list"
  awaiting :: "(nat \<times> cont) list"
  microtasks :: "cont list"
  trace :: "instr list"

definition emit :: "instr list \<Rightarrow> textbox \<Rightarrow> textbox" where
  "emit instrs s = s\<lparr>trace := trace s @ instrs\<rparr>"

definition setTimeout :: "callback \<Rightarrow> real \<Rightarrow> textbox \<Rightarrow> nat \<times> textbox" where
  "setTimeout cb ms s =
     (nextTimer s,
      emit [SetTimeout ms]
        (s\<lparr>timers := timers s @ [(nextTimer s, ms, cb)], nextTimer := Suc (nextTimer s)\<rparr>))"

definition clearTimeout :: "nat \<Rightarrow> textbox \<Rightarrow> textbox" where
  "clearTimeout t s = s\<lparr>timers := filter (\<lambda>(i, ms, cb). i \<noteq> t) (timers s)\<rparr>"

definition newPromise :: "textbox \<Rightarrow> nat \<times> textbox" where
  "newPromise s = (nextPromise s, s\<lparr>nextPromise := Suc (nextPromise s)\<rparr>)"

text \<open>Resolving a promise queues the calls that await it as microtasks; resolving it
  again does nothing.\<close>

definition resolve :: "nat \<Rightarrow> textbox \<Rightarrow> textbox" where
  "resolve p s =
     (if p \<in> set (resolved s) then s
      else s\<lparr>resolved := p # resolved s,
             microtasks := microtasks s @ map snd (filter (\<lambda>(q, k). q = p) (awaiting s)),
             awaiting := filter (\<lambda>(q, k). q \<noteq> p) (awaiting s)\<rparr>)"

text \<open>\<open>await p\<close> with the rest of the call \<open>k\<close>: the call is suspended until \<open>p\<close> is
  resolved, and is resumed in a microtask.\<close>

definition await :: "nat \<Rightarrow> cont \<Rightarrow> textbox \<Rightarrow> textbox" where
  "await p k s =
     (if p \<in> set (resolved s) then s\<lparr>microtasks := microtasks s @ [k]\<rparr>
      else s\<lparr>awaiting := awaiting s @ [(p, k)]\<rparr>)"

subsection \<open>\<open>applyStyles\<close>\<close>

definition digit_char :: "nat \<Rightarrow> char" where
  "digit_char d = ''0123456789'' ! d"

fun show_nat :: "nat \<Rightarrow> string" where
  "show_nat n = (if n < 10 then [digit_char n] else show_nat (n div 10) @ [digit_char (n mod 10)])"

declare show_nat.simps [simp del]

definition is_digit :: "char \<Rightarrow> bool" where
  "is_digit c \<longleftrightarrow> c \<in> set ''0123456789''"

definition digit_val :: "char \<Rightarrow> nat" where
  "digit_val c = length (takeWhile (\<lambda>d. d \<noteq> c) ''0123456789'')"

text \<open>\<open>parseInt\<close> on a string of decimal digits.\<close>

definition parseInt :: "string \<Rightarrow> nat" where
  "parseInt ds = foldl (\<lambda>n c. 10 * n + digit_val c) 0 ds"

text \<open>The alternation \<open>(px|em|rem)\<close> behind the digits of \<open>/(\d+)(px|em|rem)/\<close>.\<close>

definition unit_here :: "string \<Rightarrow> string \<Rightarrow> (string \<times> string) option" where
  "unit_here ds s =
     (if take 2 s = ''px'' then Some (ds, ''px'')
      else if take 2 s = ''em'' then Some (ds, ''em'')
      else if take 3 s = ''rem'' then Some (ds, ''rem'')
      else None)"

text \<open>\<open>basePadding.match(/(\d+)(px|em|rem)/)\<close>: the leftmost match, as its two groups.\<close>

fun padding_match :: "string \<Rightarrow> (string \<times> string) option" where
  "padding_match [] = None"
| "padding_match (c # cs) =
     (case greedy_plus is_digit unit_here [] (c # cs) of
        Some m \<Rightarrow> Some m
      | None \<Rightarrow> padding_match cs)"

definition set_style :: "string \<Rightarrow> string \<Rightarrow> textbox \<Rightarrow> textbox" where
  "set_style k v s = s\<lparr>style := AList.update k v (style s)\<rparr>"

text \<open>Each assignment to \<open>this.textElement.style\<close> is recorded under the property's
  name, as the code writes it.\<close>

definition applyStyles :: "textbox \<Rightarrow> textbox" where
  "applyStyles s =
     (let opts = options s;
          s = set_style ''fontFamily'' (fontFamily opts) s;
          s = set_style ''fontSize'' (show_nat (fontSize opts) @ ''px'') s;
          s = set_style ''color'' (color opts) s;
          s = set_style ''backgroundColor'' (backgroundColor opts) s;
          s = set_style ''wordWrap'' ''break-word'' s;
          s = set_style ''overflowWrap'' ''break-word'' s;
          s = set_style ''boxSizing'' ''border-box'' s;
          s = set_style ''position'' ''relative'' s;
          basePadding = padding opts;
          s = (if waitForInput opts then
                 (case padding_match basePadding of
                    Some (paddingValue, paddingUnit) \<Rightarrow>
                      set_style ''paddingBottom'' (show_nat (parseInt paddingValue + 20) @ paddingUnit)
                        (set_style ''padding'' basePadding s)
                  | None \<Rightarrow>
                      set_style ''paddingBottom'' ''30px'' (set_style ''padding'' basePadding s))
               else set_style ''padding'' basePadding s)
      in if fixedSize opts then
           set_style ''overflow'' ''auto''
             (set_style ''height'' (height opts) (set_style ''width'' (width opts) s))
         else set_style ''minHeight'' ''auto'' (set_style ''width'' ''100%'' s))"

subsection \<open>Reveal driver\<close>

definition effect_class :: "string option \<Rightarrow> string option" where
  "effect_class e = (case e of Some t \<Rightarrow> if t \<noteq> [] then Some (''typewriter-'' @ t) else None
                     | None \<Rightarrow> None)"

text \<open>\<open>querySelector('[data-segment="i"]')\<close> finds the first span with that attribute.\<close>

definition has_span :: "nat \<Rightarrow> node list \<Rightarrow> bool" where
  "has_span i ns = list_ex (\<lambda>n. case n of Span d c t \<Rightarrow> d = Some i | Br \<Rightarrow> False) ns"

fun append_to_span :: "nat \<Rightarrow> char \<Rightarrow> node list \<Rightarrow> node list" where
  "append_to_span i c [] = []"
| "append_to_span i c (Br # ns) = Br # append_to_span i c ns"
| "append_to_span i c (Span d cl t # ns) =
     (if d = Some i then Span d cl (t @ [c]) # ns else Span d cl t # append_to_span i c ns)"

text \<open>Removing every child but the continue indicator.\<close>

definition remove_children :: "textbox \<Rightarrow> textbox" where
  "remove_children s =
     emit (replicate (length (children s)) RemoveChild) (s\<lparr>children := []\<rparr>)"

text \<open>
  The closure \<open>typeChar\<close> of \<open>typeText\<close>, with the \<open>resolve\<close> and \<open>msPerChar\<close> it
  captures. It calls itself at once when the current segment is used up, and through a
  timer after a character.
\<close>

function typeChar :: "nat \<Rightarrow> real \<Rightarrow> textbox \<Rightarrow> textbox" where
  "typeChar rslv msPerChar s =
     (if currentSegmentIndex s < length (segments s) then
        (let segment = segments s ! currentSegmentIndex s in
         if currentSegmentCharIndex s < length (seg_text segment) then
           (let char = seg_text segment ! currentSegmentCharIndex s;
                i = currentSegmentIndex s;
                s = (if has_span i (children s) then s
                     else emit [CreateSpan (Some i) (effect_class (seg_effect segment))]
                            (s\<lparr>children := children s
                                 @ [Span (Some i) (effect_class (seg_effect segment)) []]\<rparr>));
                s = emit [AppendChar i char] (s\<lparr>children := append_to_span i char (children s)\<rparr>);
                s = s\<lparr>currentSegmentCharIndex := currentSegmentCharIndex s + 1,
                      currentIndex := currentIndex s + 1\<rparr>;
                (t, s) = setTimeout (TypeChar rslv msPerChar) msPerChar s
            in s\<lparr>timeoutId := Some t\<rparr>)
         else typeChar rslv msPerChar
                (s\<lparr>currentSegmentIndex := currentSegmentIndex s + 1,
                    currentSegmentCharIndex := 0\<rparr>))
      else resolve rslv (s\<lparr>currentFullText := None\<rparr>))"
  by pat_completeness auto
termination
  by (relation "measure (\<lambda>(rslv, msPerChar, s). length (segments s) - currentSegmentIndex s)")
     auto

declare typeChar.simps [simp del]

text \<open>\<open>typeText\<close> returns its promise.\<close>

definition typeText :: "string \<Rightarrow> textbox \<Rightarrow> nat \<times> textbox" where
  "typeText txt s =
     (let s = s\<lparr>currentText := [], currentIndex := 0, currentFullText := Some txt,
                segments := parseText txt, currentSegmentIndex := 0,
                currentSegmentCharIndex := 0\<rparr>;
          s = remove_children s;
          (p, s) = newPromise s;
          charsPerMs = speed (options s) / 1000;
          msPerChar = 1 / charsPerMs
      in (p, typeChar p msPerChar s))"

subsection \<open>Input gate\<close>

definition showContinueIndicator :: "textbox \<Rightarrow> textbox" where
  "showContinueIndicator s = s\<lparr>indicatorShown := True\<rparr>"

definition hideContinueIndicator :: "textbox \<Rightarrow> textbox" where
  "hideContinueIndicator s = s\<lparr>indicatorShown := False\<rparr>"

definition waitForContinue :: "textbox \<Rightarrow> nat \<times> textbox" where
  "waitForContinue s =
     (if \<not> waitForInput (options s) then
        (let (p, s) = newPromise s in (p, resolve p s))
      else
        (let (p, s) = newPromise s in (p, showContinueIndicator (s\<lparr>continueResolve := Some p\<rparr>))))"

definition wait :: "real \<Rightarrow> textbox \<Rightarrow> nat \<times> textbox" where
  "wait ms s = (let (p, s) = newPromise s; (t, s) = setTimeout (Resolve p) ms s in (p, s))"

subsection \<open>Queue controller\<close>

definition clear :: "textbox \<Rightarrow> textbox" where
  "clear s =
     (let s = (case timeoutId s of
                 Some t \<Rightarrow> (clearTimeout t s)\<lparr>timeoutId := None\<rparr>
               | None \<Rightarrow> s);
          s = s\<lparr>currentText := [], currentIndex := 0\<rparr>
      in remove_children s)"

definition clearQueue :: "textbox \<Rightarrow> textbox" where
  "clearQueue s =
     (let s = s\<lparr>queue := []\<rparr>;
          s = clear s
      in s\<lparr>isTyping := False, currentFullText := None\<rparr>)"

text \<open>\<open>processQueue\<close> up to its first \<open>await\<close>.\<close>

definition processQueue :: "textbox \<Rightarrow> textbox" where
  "processQueue s =
     (case queue s of
        [] \<Rightarrow> hideContinueIndicator (s\<lparr>isTyping := False\<rparr>)
      | txt # rest \<Rightarrow>
          (let s = s\<lparr>isTyping := True, hasSkippedCurrentText := False, queue := rest\<rparr>;
               (p, s) = typeText txt s
           in await p AfterTypeText s))"

text \<open>\<open>processQueue\<close> from behind \<open>await this.typeText(text)\<close> to its second \<open>await\<close>.\<close>

definition after_typeText :: "textbox \<Rightarrow> textbox" where
  "after_typeText s =
     (if waitForInput (options s) then
        (let (p, s) = waitForContinue s in await p AfterGate s)
      else
        (let (p, s) = wait (delayAfter (options s)) s in await p AfterGate s))"

definition insert_br :: "textbox \<Rightarrow> textbox" where
  "insert_br s = emit [InsertBr] (s\<lparr>children := children s @ [Br]\<rparr>)"

text \<open>\<open>processQueue\<close> from behind its second \<open>await\<close> to its end, the call of
  \<open>processQueue\<close> for the next item included.\<close>

definition after_gate :: "textbox \<Rightarrow> textbox" where
  "after_gate s =
     (let s = (if displayType (options s) = ''disappear'' then clear s else insert_br s)
      in processQueue s)"

definition resume :: "cont \<Rightarrow> textbox \<Rightarrow> textbox" where
  "resume k s = (case k of AfterTypeText \<Rightarrow> after_typeText s | AfterGate \<Rightarrow> after_gate s)"

definition addToQueue :: "string \<Rightarrow> textbox \<Rightarrow> textbox" where
  "addToQueue txt s =
     (let s = s\<lparr>queue := queue s @ [txt]\<rparr>
      in if \<not> isTyping s then processQueue s else s)"

definition addMultipleToQueue :: "string list \<Rightarrow> textbox \<Rightarrow> textbox" where
  "addMultipleToQueue txts s =
     (let s = s\<lparr>queue := queue s @ txts\<rparr>
      in if \<not> isTyping s then processQueue s else s)"

subsection \<open>Skip\<close>

text \<open>A string is truthy when it is not empty; \<open>null\<close> and \<open>undefined\<close> are not.\<close>

definition truthy_text :: "string option \<Rightarrow> bool" where
  "truthy_text t = (case t of Some x \<Rightarrow> x \<noteq> [] | None \<Rightarrow> False)"

definition render_segment :: "textbox \<Rightarrow> segment \<Rightarrow> textbox" where
  "render_segment s segment =
     emit [CreateSpan None (effect_class (seg_effect segment)), SetText (seg_text segment)]
       (s\<lparr>children := children s @ [Span None (effect_class (seg_effect segment)) (seg_text segment)]\<rparr>)"

definition skip :: "textbox \<Rightarrow> textbox" where
  "skip s =
     (if isTyping s \<and> truthy_text (currentFullText s) \<and> \<not> hasSkippedCurrentText s then
        (let s = (case timeoutId s of
                    Some t \<Rightarrow> (clearTimeout t s)\<lparr>timeoutId := None\<rparr>
                  | None \<Rightarrow> s);
             s = remove_children s;
             s = foldl render_segment s (segments s);
             s = s\<lparr>currentText := the (currentFullText s),
                   currentIndex := length (the (currentFullText s)),
                   currentFullText := None,
                   currentSegmentIndex := length (segments s),
                   hasSkippedCurrentText := True,
                   isTyping := False\<rparr>
         in if waitForInput (options s) then snd (waitForContinue s) else s)
      else s)"

subsection \<open>Listeners\<close>

text \<open>The body shared by \<open>skipKeyHandler\<close> and \<open>skipClickHandler\<close>.\<close>

definition skipHandler :: "textbox \<Rightarrow> textbox" where
  "skipHandler s =
     (if isTyping s \<and> \<not> hasSkippedCurrentText s then skip s
      else if hasSkippedCurrentText s \<and> continueResolve s \<noteq> None then
        (let s = hideContinueIndicator s;
             s = resolve (the (continueResolve s)) s
         in s\<lparr>continueResolve := None\<rparr>)
      else s)"

text \<open>The body shared by \<open>continueKeyHandler\<close> and \<open>continueClickHandler\<close>.\<close>

definition continueHandler :: "textbox \<Rightarrow> textbox" where
  "continueHandler s =
     (if \<not> skippable (options s) \<and> continueResolve s \<noteq> None \<and> indicatorShown s then
        (let s = hideContinueIndicator s;
             s = resolve (the (continueResolve s)) s
         in s\<lparr>continueResolve := None\<rparr>)
      else s)"

text \<open>An input signal (a key press on the document or a click on the text element)
  runs the registered handlers in the order the constructor registered them.\<close>

definition input_signal :: "textbox \<Rightarrow> textbox" where
  "input_signal s =
     (let s = (if skipListeners s then skipHandler s else s)
      in if continueListeners s then continueHandler s else s)"

subsection \<open>Construction, update and teardown\<close>

datatype error = ContainerNotFound

text \<open>The text box that the constructor builds from the resolved options once the
  container element is found. Loading the stylesheet (\<open>loadAnimationCSS\<close>) touches the
  document only and is left out.\<close>

definition initial :: "config \<Rightarrow> textbox" where
  "initial opts =
     (let s = \<lparr>options = opts, queue = [], isTyping = False, currentText = [],
               currentIndex = 0, timeoutId = None, hasSkippedCurrentText = False,
               currentFullText = None, segments = [], currentSegmentIndex = 0,
               currentSegmentCharIndex = 0, continueResolve = None, children = [],
               indicatorShown = False, style = [], attached = True,
               skipListeners = False, continueListeners = False, timers = [],
               nextTimer = 1, nextPromise = 1, resolved = [], awaiting = [],
               microtasks = [], trace = []\<rparr>;
          s = applyStyles s;
          s = (if skippable (options s)
               then set_style ''cursor'' ''pointer'' (s\<lparr>skipListeners := True\<rparr>)
               else s)
      in if waitForInput (options s)
         then s\<lparr>continueListeners := True, continueResolve := None\<rparr>
         else s)"

text \<open>The constructor throws when the container element is not found.\<close>

definition construct :: "bool \<Rightarrow> config \<Rightarrow> error + textbox" where
  "construct container_found opts =
     (if \<not> container_found then Inl ContainerNotFound else Inr (initial opts))"

definition updateOptions :: "opt list \<Rightarrow> textbox \<Rightarrow> textbox" where
  "updateOptions newOptions s = applyStyles (s\<lparr>options := spread (options s) newOptions\<rparr>)"

definition destroy :: "textbox \<Rightarrow> textbox" where
  "destroy s =
     (let s = s\<lparr>skipListeners := False\<rparr>;
          s = s\<lparr>continueListeners := False\<rparr>;
          s = clearQueue s
      in s\<lparr>attached := False\<rparr>)"

subsection \<open>The event loop\<close>

text \<open>
  Everything that can run code of the text box: a call of its interface, an input
  signal, a timer that fires, and a microtask that resumes a suspended
  \<open>processQueue\<close>. A timer that is not live and a microtask on an empty queue do
  nothing. In the browser every microtask runs before the next timer or input signal.
\<close>

datatype event =
    AddToQueue string
  | AddMultipleToQueue "string list"
  | ClearQueue
  | Skip
  | UpdateOptions "opt list"
  | Destroy
  | KeyDown
  | Click
  | TimerFire nat
  | Microtask

definition fire :: "nat \<Rightarrow> textbox \<Rightarrow> textbox" where
  "fire t s =
     (case filter (\<lambda>(i, ms, cb). i = t) (timers s) of
        [] \<Rightarrow> s
      | (i, ms, cb) # others \<Rightarrow>
          (let s = clearTimeout t s
           in case cb of
                TypeChar rslv msPerChar \<Rightarrow> typeChar rslv msPerChar s
              | Resolve p \<Rightarrow> resolve p s))"

definition microtask :: "textbox \<Rightarrow> textbox" where
  "microtask s =
     (case microtasks s of
        [] \<Rightarrow> s
      | k # ks \<Rightarrow> resume k (s\<lparr>microtasks := ks\<rparr>))"

fun step :: "event \<Rightarrow> textbox \<Rightarrow> textbox" where
  "step (AddToQueue txt) s = addToQueue txt s"
| "step (AddMultipleToQueue txts) s = addMultipleToQueue txts s"
| "step ClearQueue s = clearQueue s"
| "step Skip s = skip s"
| "step (UpdateOptions newOptions) s = updateOptions newOptions s"
| "step Destroy s = destroy s"
| "step KeyDown s = input_signal s"
| "step Click s = input_signal s"
| "step (TimerFire t) s = fire t s"
| "step Microtask s = microtask s"

definition run :: "event list \<Rightarrow> textbox \<Rightarrow> textbox" where
  "run es s = foldl (\<lambda>s e. step e s) s es"

subsection \<open>Option resolution in the constructor\<close>

text \<open>
  The values a caller can put into the options object, with JavaScript's truthiness:
  \<open>undefined\<close>, \<open>null\<close>, \<open>false\<close>, \<open>0\<close>, \<open>NaN\<close> and the empty string are falsy.
\<close>

datatype jsval = Undefined | Null | Bool bool | Num real | NaN | Str string

fun truthy :: "jsval \<Rightarrow> bool" where
  "truthy Undefined = False"
| "truthy Null = False"
| "truthy (Bool b) = b"
| "truthy (Num x) = (x \<noteq> 0)"
| "truthy NaN = False"
| "truthy (Str s) = (s \<noteq> [])"

text \<open>\<open>a || b\<close>.\<close>

definition js_or :: "jsval \<Rightarrow> jsval \<Rightarrow> jsval" where
  "js_or a b = (if truthy a then a else b)"

text \<open>An object is the map of its own properties; reading a property that it does not
  have gives \<open>undefined\<close>.\<close>

definition get_prop :: "(string \<rightharpoonup> jsval) \<Rightarrow> string \<Rightarrow> jsval" where
  "get_prop obj k = (case obj k of Some v \<Rightarrow> v | None \<Rightarrow> Undefined)"

text \<open>The thirteen properties that the object literal of the constructor writes before
  the spread.\<close>

definition keyed_defaults :: "(string \<rightharpoonup> jsval) \<Rightarrow> (string \<rightharpoonup> jsval)" where
  "keyed_defaults opts =
     [''fontFamily'' \<mapsto> js_or (get_prop opts ''fontFamily'') (Str ''PixelSans''),
      ''fontSize'' \<mapsto> js_or (get_prop opts ''fontSize'') (Num 40),
      ''color'' \<mapsto> js_or (get_prop opts ''color'') (Str ''#F3E8D8''),
      ''speed'' \<mapsto> js_or (get_prop opts ''speed'') (Num 30),
      ''type'' \<mapsto> js_or (get_prop opts ''type'') (Str ''disappear''),
      ''delayAfter'' \<mapsto> js_or (get_prop opts ''delayAfter'') (Num 2000),
      ''backgroundColor'' \<mapsto> js_or (get_prop opts ''backgroundColor'') (Str ''transparent''),
      ''padding'' \<mapsto> js_or (get_prop opts ''padding'') (Str ''10px''),
      ''skippable'' \<mapsto> js_or (get_prop opts ''skippable'') (Bool False),
      ''fixedSize'' \<mapsto>
        (if get_prop opts ''fixedSize'' \<noteq> Undefined then get_prop opts ''fixedSize'' else Bool True),
      ''width'' \<mapsto> js_or (get_prop opts ''width'') (Str ''100%''),
      ''height'' \<mapsto> js_or (get_prop opts ''height'') (Str ''auto''),
      ''waitForInput'' \<mapsto>
        (if get_prop opts ''waitForInput'' \<noteq> Undefined then get_prop opts ''waitForInput'' else Bool True)]"

text \<open>\<open>this.options = { fontFamily: ..., ..., waitForInput: ..., ...options }\<close>: the
  spread copies every own property of \<open>options\<close> over what the literal has so far.\<close>

definition resolve_options :: "(string \<rightharpoonup> jsval) \<Rightarrow> (string \<rightharpoonup> jsval)" where
  "resolve_options opts = keyed_defaults opts ++ opts"

text \<open>The configuration when the caller passes no option at all.\<close>

definition default_options :: "string \<rightharpoonup> jsval" where
  "default_options =
     [''fontFamily'' \<mapsto> Str ''PixelSans'',
      ''fontSize'' \<mapsto> Num 40,
      ''color'' \<mapsto> Str ''#F3E8D8'',
      ''speed'' \<mapsto> Num 30,
      ''type'' \<mapsto> Str ''disappear'',
      ''delayAfter'' \<mapsto> Num 2000,
      ''backgroundColor'' \<mapsto> Str ''transparent'',
      ''padding'' \<mapsto> Str ''10px'',
      ''skippable'' \<mapsto> Bool False,
      ''fixedSize'' \<mapsto> Bool True,
      ''width'' \<mapsto> Str ''100%'',
      ''height'' \<mapsto> Str ''auto'',
      ''waitForInput'' \<mapsto> Bool True]"

text \<open>The same defaults as a typed configuration, and the text box the constructor
  builds from a configuration when the container exists.\<close>

definition defaults :: config where
  "defaults =
     \<lparr>fontFamily = ''PixelSans'', fontSize = 40, color = ''#F3E8D8'', speed = 30,
      displayType = ''disappear'', delayAfter = 2000, backgroundColor = ''transparent'',
      padding = ''10px'', skippable = False, fixedSize = True, width = ''100%'',
      height = ''auto'', waitForInput = True\<rparr>"

section \<open>Runs of the text box\<close>

text \<open>
  Text boxes used in the examples, each built from the defaults of the constructor with
  a few options set. The slow ones type one character per second, so that a timer of
  500 ms set before a character timer is due first.
\<close>

definition skippable_box :: textbox where
  "skippable_box = initial (defaults\<lparr>skippable := True\<rparr>)"

definition nowait_box :: textbox where
  "nowait_box = initial (defaults\<lparr>waitForInput := False\<rparr>)"

definition persist_nowait_box :: textbox where
  "persist_nowait_box = initial (defaults\<lparr>displayType := ''persist'', waitForInput := False\<rparr>)"

definition slow_nowait_box :: textbox where
  "slow_nowait_box = initial (defaults\<lparr>speed := 1, delayAfter := 500, waitForInput := False\<rparr>)"


text \<open>Two messages are queued, and the first input signal arrives while the first
  message is being revealed.\<close>

definition skip_run :: "event list" where
  "skip_run = [AddMultipleToQueue [''ab'', ''c''], KeyDown]"

subsection \<open>Reading the trace\<close>












section \<open>Properties of the segment parser\<close>

lemma strip_markers_Nil: "strip_markers [] = []"
  by (subst strip_markers.simps) (simp add: marker_at_def)

lemma strip_markers_keep:
  "marker_at (c # cs) = None \<Longrightarrow> strip_markers (c # cs) = c # strip_markers cs"
  by (subst strip_markers.simps) simp

lemma strip_markers_marker:
  "marker_at s = Some (tag, content, rest) \<Longrightarrow> strip_markers s = content @ strip_markers rest"
  by (subst strip_markers.simps) simp

lemma exec_from_None_strip: "exec_from s i = None \<Longrightarrow> strip_markers s = s"
proof (induction s arbitrary: i)
  case Nil
  show ?case by (rule strip_markers_Nil)
next
  case (Cons c cs)
  from Cons.prems have m: "match_here (c # cs) = None" and e: "exec_from cs (Suc i) = None"
    by (auto split: option.splits)
  from m have "marker_at (c # cs) = None" by (simp add: match_here_marker_at)
  then show ?case using Cons.IH [OF e] by (simp add: strip_markers_keep)
qed

lemma match_here_drop:
  assumes "match_here s = Some (tag, content, rest)"
  shows "drop (length s - length rest) s = rest"
proof -
  from match_here_shape [OF assms] obtain p where "s = p @ rest"
    by (metis append.assoc)
  then show ?thesis by simp
qed

lemma exec_from_Some_strip:
  "exec_from s i = Some (idx, tag, content, e) \<Longrightarrow>
     strip_markers s = take (idx - i) s @ content @ strip_markers (drop (e - i) s)"
proof (induction s arbitrary: i)
  case Nil
  then show ?case by simp
next
  case (Cons c cs)
  show ?case
  proof (cases "match_here (c # cs)")
    case None
    with Cons.prems have e: "exec_from cs (Suc i) = Some (idx, tag, content, e)"
      by simp
    from exec_from_bounds [OF e] have b: "Suc i \<le> idx" "idx < e" by auto
    then have t: "take (idx - i) (c # cs) = c # take (idx - Suc i) cs"
      and d: "drop (e - i) (c # cs) = drop (e - Suc i) cs"
      by (auto simp: take_Cons' drop_Cons')
    from None have "marker_at (c # cs) = None" by (simp add: match_here_marker_at)
    then show ?thesis
      using Cons.IH [OF e] t d by (simp add: strip_markers_keep)
  next
    case (Some m)
    obtain t u rest where m: "m = (t, u, rest)" by (cases m) auto
    with Some Cons.prems have eq: "idx = i" "tag = t" "content = u"
      "e = i + (length (c # cs) - length rest)"
      by auto
    from Some m have mh: "match_here (c # cs) = Some (t, u, rest)" by simp
    then have "marker_at (c # cs) = Some (t, u, rest)" by (simp add: match_here_marker_at)
    then have "strip_markers (c # cs) = u @ strip_markers rest"
      by (rule strip_markers_marker)
    moreover have "drop (e - i) (c # cs) = rest"
      using match_here_drop [OF mh] eq by simp
    ultimately show ?thesis using eq by simp
  qed
qed

lemma parse_loop_texts:
  "parse_loop msg i segs = (j, segs') \<Longrightarrow>
     concat (map seg_text segs') @ drop j msg = concat (map seg_text segs) @ strip_markers (drop i msg)"
proof (induction msg i segs rule: parse_loop.induct)
  case (1 msg lastIndex segs0)
  show ?case
  proof (cases "regex_exec msg lastIndex")
    case None
    with "1.prems" have "j = lastIndex" "segs' = segs0"
      by (auto simp: parse_loop.simps)
    moreover from None have "strip_markers (drop lastIndex msg) = drop lastIndex msg"
      unfolding regex_exec_def by (rule exec_from_None_strip)
    ultimately show ?thesis by simp
  next
    case (Some m)
    obtain idx tag content e where m: "m = (idx, tag, content, e)" by (cases m) auto
    let ?segs = "(if idx > lastIndex
              then segs0 @ [\<lparr>seg_text = substring msg lastIndex idx, seg_effect = None\<rparr>]
              else segs0) @ [\<lparr>seg_text = content, seg_effect = Some tag\<rparr>]"
    from Some m "1.prems" have pl: "parse_loop msg e ?segs = (j, segs')"
      by (simp add: parse_loop.simps)
    from Some m have ex: "regex_exec msg lastIndex = Some (idx, tag, content, e)" by simp
    from regex_exec_bounds [OF ex] have b: "lastIndex \<le> idx" "idx < e" "e \<le> length msg" by auto
    have ih: "concat (map seg_text segs') @ drop j msg
        = concat (map seg_text ?segs) @ strip_markers (drop e msg)"
      using "1.IH" [OF ex refl refl refl pl] .
    have st: "strip_markers (drop lastIndex msg)
        = substring msg lastIndex idx @ content @ strip_markers (drop e msg)"
      using exec_from_Some_strip [OF ex [unfolded regex_exec_def]] b
      by (simp add: substring_def)
    have "concat (map seg_text ?segs) = concat (map seg_text segs0) @ substring msg lastIndex idx @ content"
      using b by (auto simp: substring_def)
    with ih st show ?thesis by simp
  qed
qed

lemma parse_loop_grows:
  "parse_loop msg i segs = (j, segs') \<Longrightarrow>
     length segs \<le> length segs' \<and> (length segs' = length segs \<longrightarrow> j = i)"
proof (induction msg i segs rule: parse_loop.induct)
  case (1 msg lastIndex segs0)
  show ?case
  proof (cases "regex_exec msg lastIndex")
    case None
    with "1.prems" show ?thesis by (auto simp: parse_loop.simps)
  next
    case (Some m)
    obtain idx tag content e where m: "m = (idx, tag, content, e)" by (cases m) auto
    let ?segs = "(if idx > lastIndex
              then segs0 @ [\<lparr>seg_text = substring msg lastIndex idx, seg_effect = None\<rparr>]
              else segs0) @ [\<lparr>seg_text = content, seg_effect = Some tag\<rparr>]"
    from Some m "1.prems" have pl: "parse_loop msg e ?segs = (j, segs')"
      by (simp add: parse_loop.simps)
    from Some m have ex: "regex_exec msg lastIndex = Some (idx, tag, content, e)" by simp
    have "length ?segs \<le> length segs'"
      using "1.IH" [OF ex refl refl refl pl] by blast
    then show ?thesis by (auto split: if_splits)
  qed
qed

text \<open>
  Claim C6. For every input string, the \<open>text\<close> fields of the segs0 that \<open>parseText\<close>
  returns, concatenated in order, are the input with the marker syntax removed: every
  marker \<open>{tag:content}\<close> met while reading left to right is replaced by its content,
  and every other character is kept.
\<close>

theorem parseText_concat: "concat (map seg_text (parseText msg)) = strip_markers msg"
proof -
  obtain j segs where pl: "parse_loop msg 0 [] = (j, segs)" by (cases "parse_loop msg 0 []") auto
  from parse_loop_texts [OF pl] have t: "concat (map seg_text segs) @ drop j msg = strip_markers msg"
    by simp
  from parse_loop_grows [OF pl] have g: "segs = [] \<longrightarrow> j = 0" by auto
  show ?thesis
  proof (cases "j < length msg")
    case True
    with pl t show ?thesis by (simp add: parseText_def)
  next
    case False
    then have d: "drop j msg = []" by simp
    show ?thesis
    proof (cases "segs = []")
      case True
      with g False have "msg = []" by simp
      with True pl t show ?thesis by (simp add: parseText_def)
    next
      case False
      with \<open>\<not> j < length msg\<close> pl t d show ?thesis by (simp add: parseText_def)
    qed
  qed
qed

lemma exec_from_has_marker: "exec_from s i = Some r \<Longrightarrow> has_marker s"
proof (induction s arbitrary: i)
  case Nil
  then show ?case by simp
next
  case (Cons c cs)
  show ?case
  proof (cases "match_here (c # cs)")
    case None
    with Cons.prems have "exec_from cs (Suc i) = Some r" by simp
    from Cons.IH [OF this] obtain pre tag content post where
      "cs = pre @ ''{'' @ tag @ '':'' @ content @ ''}'' @ post"
      "tag \<noteq> []" "list_all word_char tag" "content \<noteq> []" "CHR ''}'' \<notin> set content"
      unfolding has_marker_def by blast
    then show ?thesis
      unfolding has_marker_def
      by (intro exI [of _ "c # pre"] exI [of _ tag] exI [of _ content] exI [of _ post]) simp
  next
    case (Some m)
    obtain t u rest where m: "m = (t, u, rest)" by (cases m) auto
    from match_here_shape [of "c # cs" t u rest] Some m
    show ?thesis
      unfolding has_marker_def
      by (intro exI [of _ "[]"] exI [of _ t] exI [of _ u] exI [of _ rest]) (simp add: list_all_iff)
  qed
qed

lemma no_marker_single:
  "\<not> has_marker msg \<Longrightarrow> parseText msg = [\<lparr>seg_text = msg, seg_effect = None\<rparr>]"
proof -
  assume "\<not> has_marker msg"
  then have "exec_from msg 0 = None"
    using exec_from_has_marker [of msg 0] by (cases "exec_from msg 0") auto
  then have "parse_loop msg 0 [] = (0, [])"
    by (simp add: parse_loop.simps regex_exec_def)
  then show ?thesis by (simp add: parseText_def)
qed

lemma has_marker_brace: "has_marker msg \<Longrightarrow> CHR ''{'' \<in> set msg"
  by (auto simp: has_marker_def)

text \<open>
  Claim C5. A string that contains no marker is returned as one plain segment holding
  the whole string; the empty string gives one segment with empty text and no effect;
  and \<open>{a:x}{b:y}\<close> gives the two segs0 \<open>x\<close> with effect \<open>a\<close> and \<open>y\<close> with effect \<open>b\<close>,
  in that order.
\<close>

theorem parseText_examples:
  "(\<not> has_marker msg \<longrightarrow> parseText msg = [\<lparr>seg_text = msg, seg_effect = None\<rparr>])
   \<and> parseText '''' = [\<lparr>seg_text = '''', seg_effect = None\<rparr>]
   \<and> parseText ''{a:x}{b:y}'' =
       [\<lparr>seg_text = ''x'', seg_effect = Some ''a''\<rparr>, \<lparr>seg_text = ''y'', seg_effect = Some ''b''\<rparr>]"
proof (intro conjI impI)
  show "\<not> has_marker msg \<Longrightarrow> parseText msg = [\<lparr>seg_text = msg, seg_effect = None\<rparr>]"
    by (rule no_marker_single)
  show "parseText '''' = [\<lparr>seg_text = '''', seg_effect = None\<rparr>]"
    by code_simp
  show "parseText ''{a:x}{b:y}'' =
       [\<lparr>seg_text = ''x'', seg_effect = Some ''a''\<rparr>, \<lparr>seg_text = ''y'', seg_effect = Some ''b''\<rparr>]"
    by code_simp
qed

text \<open>The first part of C5 at the marker-free message \<open>press any key\<close>.\<close>

theorem parseText_examples_witness:
  "\<not> has_marker ''press any key'' \<and>
   parseText ''press any key'' = [\<lparr>seg_text = ''press any key'', seg_effect = None\<rparr>]"
proof -
  have h: "\<not> has_marker ''press any key''"
    using has_marker_brace [of "''press any key''"] by auto
  with parseText_examples [of "''press any key''"] show ?thesis by blast
qed

section \<open>Properties of the text box\<close>

subsection \<open>Basic facts\<close>



lemma fire_no_timer: "timers s = [] \<Longrightarrow> fire t s = s"
  by (simp add: fire_def)

lemma microtask_none: "microtasks s = [] \<Longrightarrow> microtask s = s"
  by (simp add: microtask_def)

lemma input_signal_idle:
  "\<not> isTyping s \<Longrightarrow> continueResolve s = None \<Longrightarrow> input_signal s = s"
  by (simp add: input_signal_def skipHandler_def continueHandler_def)






subsection \<open>Skip, clear and the queue\<close>

text \<open>
  Claim C1. With \<open>skippable\<close> set, two messages are queued and an input signal arrives
  after the first character. \<open>skip\<close> cancels the character timer, renders the full text
  and sets the skip flag, but it resolves no promise: the call of \<open>processQueue\<close> stays
  suspended behind \<open>await this.typeText(text)\<close>, whereas the natural finish of the same
  message resolves promise 1 and queues the resumption. After the second input signal
  the second message is still in the queue, and no input signal, timer or microtask
  changes the state any more.
\<close>

theorem skip_leaves_reveal_unresolved:
  "timers (run skip_run skippable_box) = []
   \<and> timeoutId (run skip_run skippable_box) = None
   \<and> children (run skip_run skippable_box) = [Span None None ''ab'']
   \<and> hasSkippedCurrentText (run skip_run skippable_box)
   \<and> queue (run skip_run skippable_box) = [''c'']
   \<and> resolved (run skip_run skippable_box) = []
   \<and> microtasks (run skip_run skippable_box) = []
   \<and> awaiting (run skip_run skippable_box) = [(1, AfterTypeText)]
   \<and> resolved (run [AddMultipleToQueue [''ab'', ''c''], TimerFire 1, TimerFire 2] skippable_box) = [1]
   \<and> microtasks (run [AddMultipleToQueue [''ab'', ''c''], TimerFire 1, TimerFire 2] skippable_box)
       = [AfterTypeText]
   \<and> queue (run (skip_run @ [KeyDown]) skippable_box) = [''c'']
   \<and> awaiting (run (skip_run @ [KeyDown]) skippable_box) = [(1, AfterTypeText)]
   \<and> step KeyDown (run (skip_run @ [KeyDown]) skippable_box) = run (skip_run @ [KeyDown]) skippable_box
   \<and> step Click (run (skip_run @ [KeyDown]) skippable_box) = run (skip_run @ [KeyDown]) skippable_box
   \<and> step Microtask (run (skip_run @ [KeyDown]) skippable_box) = run (skip_run @ [KeyDown]) skippable_box
   \<and> (\<forall>t. step (TimerFire t) (run (skip_run @ [KeyDown]) skippable_box)
          = run (skip_run @ [KeyDown]) skippable_box)"
proof -
  let ?s = "run (skip_run @ [KeyDown]) skippable_box"
  have t: "timers ?s = []" by code_simp
  have m: "microtasks ?s = []" by code_simp
  have i: "\<not> isTyping ?s" by code_simp
  have c: "continueResolve ?s = None" by code_simp
  have 1: "timers (run skip_run skippable_box) = []" by code_simp
  have 2: "timeoutId (run skip_run skippable_box) = None" by code_simp
  have 3: "children (run skip_run skippable_box) = [Span None None ''ab'']" by code_simp
  have 4: "hasSkippedCurrentText (run skip_run skippable_box)" by code_simp
  have 5: "queue (run skip_run skippable_box) = [''c'']" by code_simp
  have 6: "resolved (run skip_run skippable_box) = []" by code_simp
  have 7: "microtasks (run skip_run skippable_box) = []" by code_simp
  have 8: "awaiting (run skip_run skippable_box) = [(1, AfterTypeText)]" by code_simp
  have 9: "resolved (run [AddMultipleToQueue [''ab'', ''c''], TimerFire 1, TimerFire 2] skippable_box) = [1]"
    by code_simp
  have 10: "microtasks (run [AddMultipleToQueue [''ab'', ''c''], TimerFire 1, TimerFire 2] skippable_box)
       = [AfterTypeText]" by code_simp
  have 11: "queue ?s = [''c'']" by code_simp
  have 12: "awaiting ?s = [(1, AfterTypeText)]" by code_simp
  show ?thesis
    using 1 2 3 4 5 6 7 8 9 10 11 12
    by (simp add: fire_no_timer [OF t] microtask_none [OF m] input_signal_idle [OF i c])
qed

text \<open>\<open>skip\<close> resolves no promise and resumes no call, in any state.\<close>

lemma enqueue_while_typing:
  "isTyping s \<Longrightarrow> addToQueue msg s = s\<lparr>queue := queue s @ [msg]\<rparr>"
  by (simp add: addToQueue_def Let_def)

lemma foldl_render_promises:
  "resolved (foldl render_segment s gs) = resolved s
   \<and> awaiting (foldl render_segment s gs) = awaiting s
   \<and> microtasks (foldl render_segment s gs) = microtasks s
   \<and> options (foldl render_segment s gs) = options s"
  by (induction gs arbitrary: s) (simp_all add: render_segment_def emit_def)

lemma skip_resolves_nothing:
  "resolved (skip s) = resolved s \<and> awaiting (skip s) = awaiting s
   \<and> microtasks (skip s) = microtasks s"
  by (simp add: skip_def Let_def waitForContinue_def newPromise_def showContinueIndicator_def
      foldl_render_promises remove_children_def emit_def clearTimeout_def split: option.splits)

text \<open>
  Claim C2. While a message is being revealed, \<open>isTyping\<close> is set and a call of
  \<open>addToQueue\<close> only extends the queue. After \<open>skip\<close> the flag is cleared although the
  call of \<open>processQueue\<close> is still suspended, so the next \<open>addToQueue\<close> starts a second
  call: the new message is revealed while the waiter and the indicator of the skipped
  message are still pending. \<open>clearQueue\<close> clears the flag in the same way: a message
  queued after it during the fixed delay is revealed by a second call, and the first
  call, when its delay of 500 ms ends before the next character is due, cancels that
  reveal (the display type is \<open>disappear\<close>).
\<close>

theorem enqueue_after_skip_starts_second_drain:
  "awaiting (run [AddToQueue ''ab'', AddToQueue ''c''] skippable_box) = [(1, AfterTypeText)]
   \<and> queue (run [AddToQueue ''ab'', AddToQueue ''c''] skippable_box) = [''c'']
   \<and> \<not> isTyping (run [AddToQueue ''ab'', KeyDown] skippable_box)
   \<and> awaiting (run [AddToQueue ''ab'', KeyDown] skippable_box) = [(1, AfterTypeText)]
   \<and> continueResolve (run [AddToQueue ''ab'', KeyDown] skippable_box) = Some 2
   \<and> awaiting (run [AddToQueue ''ab'', KeyDown, AddToQueue ''c''] skippable_box)
       = [(1, AfterTypeText), (3, AfterTypeText)]
   \<and> children (run [AddToQueue ''ab'', KeyDown, AddToQueue ''c''] skippable_box)
       = [Span (Some 0) None ''c'']
   \<and> continueResolve (run [AddToQueue ''ab'', KeyDown, AddToQueue ''c''] skippable_box) = Some 2
   \<and> indicatorShown (run [AddToQueue ''ab'', KeyDown, AddToQueue ''c''] skippable_box)
   \<and> awaiting (run [AddToQueue ''a'', TimerFire 1, Microtask, ClearQueue, AddToQueue ''bc''] slow_nowait_box)
       = [(2, AfterGate), (3, AfterTypeText)]
   \<and> timers (run [AddToQueue ''a'', TimerFire 1, Microtask, ClearQueue, AddToQueue ''bc''] slow_nowait_box)
       = [(2, 500, Resolve 2), (3, 1000, TypeChar 3 1000)]
   \<and> timers (run [AddToQueue ''a'', TimerFire 1, Microtask, ClearQueue, AddToQueue ''bc'',
                   TimerFire 2, Microtask] slow_nowait_box) = []
   \<and> awaiting (run [AddToQueue ''a'', TimerFire 1, Microtask, ClearQueue, AddToQueue ''bc'',
                   TimerFire 2, Microtask] slow_nowait_box) = [(3, AfterTypeText)]
   \<and> children (run [AddToQueue ''a'', TimerFire 1, Microtask, ClearQueue, AddToQueue ''bc'',
                   TimerFire 2, Microtask] slow_nowait_box) = []"
proof -
  have 1: "awaiting (run [AddToQueue ''ab'', AddToQueue ''c''] skippable_box) = [(1, AfterTypeText)]"
    by code_simp
  have 2: "queue (run [AddToQueue ''ab'', AddToQueue ''c''] skippable_box) = [''c'']"
    by code_simp
  have 3: "\<not> isTyping (run [AddToQueue ''ab'', KeyDown] skippable_box)"
    by code_simp
  have 4: "awaiting (run [AddToQueue ''ab'', KeyDown] skippable_box) = [(1, AfterTypeText)]"
    by code_simp
  have 5: "continueResolve (run [AddToQueue ''ab'', KeyDown] skippable_box) = Some 2"
    by code_simp
  have 6: "awaiting (run [AddToQueue ''ab'', KeyDown, AddToQueue ''c''] skippable_box)
       = [(1, AfterTypeText), (3, AfterTypeText)]"
    by code_simp
  have 7: "children (run [AddToQueue ''ab'', KeyDown, AddToQueue ''c''] skippable_box)
       = [Span (Some 0) None ''c'']"
    by code_simp
  have 8: "continueResolve (run [AddToQueue ''ab'', KeyDown, AddToQueue ''c''] skippable_box) = Some 2"
    by code_simp
  have 9: "indicatorShown (run [AddToQueue ''ab'', KeyDown, AddToQueue ''c''] skippable_box)"
    by code_simp
  have 10: "awaiting (run [AddToQueue ''a'', TimerFire 1, Microtask, ClearQueue, AddToQueue ''bc''] slow_nowait_box)
       = [(2, AfterGate), (3, AfterTypeText)]"
    by code_simp
  have 11: "timers (run [AddToQueue ''a'', TimerFire 1, Microtask, ClearQueue, AddToQueue ''bc''] slow_nowait_box)
       = [(2, 500, Resolve 2), (3, 1000, TypeChar 3 1000)]"
    by code_simp
  have 12: "timers (run [AddToQueue ''a'', TimerFire 1, Microtask, ClearQueue, AddToQueue ''bc'',
                   TimerFire 2, Microtask] slow_nowait_box) = []"
    by code_simp
  have 13: "awaiting (run [AddToQueue ''a'', TimerFire 1, Microtask, ClearQueue, AddToQueue ''bc'',
                   TimerFire 2, Microtask] slow_nowait_box) = [(3, AfterTypeText)]"
    by code_simp
  have 14: "children (run [AddToQueue ''a'', TimerFire 1, Microtask, ClearQueue, AddToQueue ''bc'',
                   TimerFire 2, Microtask] slow_nowait_box) = []"
    by code_simp
  from 1 2 3 4 5 6 7 8 9 10 11 12 13 14 show ?thesis by blast
qed



text \<open>
  Claim C4. With display type \<open>persist\<close> and two messages queued, the line break is
  inserted behind the first message when its delay has ended, but the reveal of the
  second message starts by removing every content node: the first message and the line
  break are gone, and the surface holds the second message alone, exactly as it does
  with display type \<open>disappear\<close>.
\<close>

theorem persist_content_removed_by_next_reveal:
  "children (run [AddMultipleToQueue [''a'', ''b''], TimerFire 1, Microtask, TimerFire 2]
       persist_nowait_box) = [Span (Some 0) None ''a'']
   \<and> children (insert_br (run [AddMultipleToQueue [''a'', ''b''], TimerFire 1, Microtask, TimerFire 2]
       persist_nowait_box)) = [Span (Some 0) None ''a'', Br]
   \<and> children (run [AddMultipleToQueue [''a'', ''b''], TimerFire 1, Microtask, TimerFire 2, Microtask]
       persist_nowait_box) = [Span (Some 0) None ''b'']
   \<and> trace (run [AddMultipleToQueue [''a'', ''b''], TimerFire 1, Microtask, TimerFire 2, Microtask]
       persist_nowait_box)
      = [CreateSpan (Some 0) None, AppendChar 0 CHR ''a'', SetTimeout (100 / 3), SetTimeout 2000,
         InsertBr, RemoveChild, RemoveChild,
         CreateSpan (Some 0) None, AppendChar 0 CHR ''b'', SetTimeout (100 / 3)]
   \<and> children (run [AddMultipleToQueue [''a'', ''b''], TimerFire 1, Microtask, TimerFire 2, Microtask]
       nowait_box) = [Span (Some 0) None ''b'']"
proof -
  have 1: "children (run [AddMultipleToQueue [''a'', ''b''], TimerFire 1, Microtask, TimerFire 2]
       persist_nowait_box) = [Span (Some 0) None ''a'']"
    by code_simp
  have 2: "children (insert_br (run [AddMultipleToQueue [''a'', ''b''], TimerFire 1, Microtask, TimerFire 2]
       persist_nowait_box)) = [Span (Some 0) None ''a'', Br]"
    by code_simp
  have 3: "children (run [AddMultipleToQueue [''a'', ''b''], TimerFire 1, Microtask, TimerFire 2, Microtask]
       persist_nowait_box) = [Span (Some 0) None ''b'']"
    by code_simp
  have 4: "trace (run [AddMultipleToQueue [''a'', ''b''], TimerFire 1, Microtask, TimerFire 2, Microtask]
       persist_nowait_box)
      = [CreateSpan (Some 0) None, AppendChar 0 CHR ''a'', SetTimeout (100 / 3), SetTimeout 2000,
         InsertBr, RemoveChild, RemoveChild,
         CreateSpan (Some 0) None, AppendChar 0 CHR ''b'', SetTimeout (100 / 3)]"
    by code_simp
  have 5: "children (run [AddMultipleToQueue [''a'', ''b''], TimerFire 1, Microtask, TimerFire 2, Microtask]
       nowait_box) = [Span (Some 0) None ''b'']"
    by code_simp
  from 1 2 3 4 5 show ?thesis by blast
qed

text \<open>The two policies themselves do what their names say.\<close>

lemma display_policies:
  "children (clear s) = [] \<and> children (insert_br s) = children s @ [Br]"
  by (simp add: clear_def insert_br_def remove_children_def emit_def clearTimeout_def Let_def
      split: option.splits)

subsection \<open>Natural reveal\<close>


















subsection \<open>Skip, option update and option resolution\<close>

lemma skip_guard_false:
  "\<not> (isTyping s \<and> truthy_text (currentFullText s) \<and> \<not> hasSkippedCurrentText s) \<Longrightarrow> skip s = s"
  by (auto simp add: skip_def)

lemma skip_twice: "skip (skip s) = skip s"
proof (cases "isTyping s \<and> truthy_text (currentFullText s) \<and> \<not> hasSkippedCurrentText s")
  case True
  then have "\<not> isTyping (skip s)"
    by (simp add: skip_def Let_def waitForContinue_def newPromise_def showContinueIndicator_def
        split: option.splits)
  then show ?thesis by (simp add: skip_guard_false)
next
  case False
  then show ?thesis by (simp add: skip_guard_false)
qed

text \<open>
  Claim C8. A second call of \<open>skip\<close> changes nothing: the state after two calls is the
  state after one, with the same content nodes and the same trace. \<open>skip\<close> is also a
  no-op on a message that is marked as skipped and on a message that has finished
  (\<open>currentFullText\<close> is \<open>null\<close>).
\<close>

theorem skip_idempotent:
  "skip (skip s) = skip s
   \<and> children (skip (skip s)) = children (skip s)
   \<and> trace (skip (skip s)) = trace (skip s)
   \<and> skip (s\<lparr>hasSkippedCurrentText := True\<rparr>) = s\<lparr>hasSkippedCurrentText := True\<rparr>
   \<and> skip (s\<lparr>currentFullText := None\<rparr>) = s\<lparr>currentFullText := None\<rparr>"
  by (simp add: skip_twice skip_guard_false truthy_text_def)


lemma get_prop_absent: "k \<notin> dom opts \<Longrightarrow> get_prop opts k = Undefined"
  by (auto simp: get_prop_def dom_def)

definition option_keys :: "string list" where
  "option_keys = [''fontFamily'', ''fontSize'', ''color'', ''speed'', ''type'', ''delayAfter'',
     ''backgroundColor'', ''padding'', ''skippable'', ''fixedSize'', ''width'', ''height'',
     ''waitForInput'']"

lemma keyed_defaults_other: "k \<notin> set option_keys \<Longrightarrow> keyed_defaults opts k = None"
  by (simp add: keyed_defaults_def option_keys_def)

lemma default_options_other: "k \<notin> set option_keys \<Longrightarrow> default_options k = None"
  by (simp add: default_options_def option_keys_def)

lemma keyed_defaults_undefined:
  assumes "k \<in> set option_keys" "get_prop opts k = Undefined"
  shows "keyed_defaults opts k = default_options k"
proof -
  from assms(1) consider "k = ''fontFamily''" | "k = ''fontSize''" | "k = ''color''"
    | "k = ''speed''" | "k = ''type''" | "k = ''delayAfter''" | "k = ''backgroundColor''"
    | "k = ''padding''" | "k = ''skippable''" | "k = ''fixedSize''" | "k = ''width''"
    | "k = ''height''" | "k = ''waitForInput''"
    unfolding option_keys_def by fastforce
  then show ?thesis
    using assms(2)
    by cases (simp_all add: keyed_defaults_def default_options_def js_or_def)
qed

text \<open>
  Claim C10. For a key that is an own property of the caller's options object, the
  resolved options hold the caller's value, whatever it is (also \<open>0\<close>, the empty string,
  \<open>false\<close> or \<open>undefined\<close>): the spread writes it over the defaulted entry. For a key the
  object does not have, the resolved options hold the default of the constructor, if
  it has one for that key.
\<close>

theorem resolve_options_spread:
  "(k \<in> dom opts \<longrightarrow> resolve_options opts k = opts k)
   \<and> (k \<notin> dom opts \<longrightarrow> resolve_options opts k = default_options k)"
proof (intro conjI impI)
  assume "k \<in> dom opts"
  then show "resolve_options opts k = opts k"
    by (auto simp: resolve_options_def map_add_def)
next
  assume a: "k \<notin> dom opts"
  then have g: "get_prop opts k = Undefined" by (rule get_prop_absent)
  have "keyed_defaults opts k = default_options k"
  proof (cases "k \<in> set option_keys")
    case True
    then show ?thesis using g by (rule keyed_defaults_undefined)
  next
    case False
    then show ?thesis by (simp add: keyed_defaults_other default_options_other)
  qed
  moreover from a have "opts k = None" by (simp add: dom_def)
  ultimately show "resolve_options opts k = default_options k"
    by (simp add: resolve_options_def map_add_def)
qed

text \<open>C10 for the options \<open>{ speed: 0 }\<close>: the speed is 0, the padding is the default.\<close>

theorem resolve_options_spread_witness:
  "''speed'' \<in> dom [''speed'' \<mapsto> Num 0]
   \<and> resolve_options [''speed'' \<mapsto> Num 0] ''speed'' = Some (Num 0)
   \<and> ''padding'' \<notin> dom [''speed'' \<mapsto> Num 0]
   \<and> resolve_options [''speed'' \<mapsto> Num 0] ''padding'' = Some (Str ''10px'')"
proof -
  have a: "''speed'' \<in> dom [''speed'' \<mapsto> Num 0]" by simp
  have b: "''padding'' \<notin> dom [''speed'' \<mapsto> Num 0]" by simp
  have c: "default_options ''padding'' = Some (Str ''10px'')" by (simp add: default_options_def)
  from a b c resolve_options_spread [of "''speed''" "[''speed'' \<mapsto> Num 0]"]
    resolve_options_spread [of "''padding''" "[''speed'' \<mapsto> Num 0]"]
  show ?thesis by simp
qed


end
